theory Spec2Isabelle
  imports Complex_Main
begin

section \<open>Data model\<close>

text \<open>
  The TypeScript interfaces \<^verbatim>\<open>TimedLyric {text, startTime, endTime}\<close> (types.ts, used by
  App.tsx and VideoPlayer.tsx) and \<^verbatim>\<open>AiImage {url, startTime, endTime}\<close> (VideoPlayer.tsx)
  share their two time fields; both are records over a common base. A JavaScript number
  that holds a time is a \<open>real\<close>: the code only compares, subtracts and divides times, and
  NaN and the infinities are not values of the model. A JavaScript string is a \<open>string\<close>
  whose characters are code units below 256.
\<close>

record Timed =
  startTime :: real
  endTime :: real

record TimedLyric = Timed +
  "text" :: string


text \<open>
  \<^verbatim>\<open>String.prototype.trim\<close>: strips white space and line terminators from both ends. Of
  the code units below 256 these are TAB, LF, VT, FF, CR, SPACE and NBSP.
\<close>

definition isWhiteSpace :: "char \<Rightarrow> bool" where
  "isWhiteSpace c = (of_char c \<in> {9, 10, 11, 12, 13, 32, 160 :: nat})"

definition trim :: "string \<Rightarrow> string" where
  "trim s = rev (dropWhile isWhiteSpace (rev (dropWhile isWhiteSpace s)))"

text \<open>\<^verbatim>\<open>xs[i] || null\<close> for a list of objects: an index out of range reads
  \<^verbatim>\<open>undefined\<close>, which \<^verbatim>\<open>|| null\<close> turns into \<^verbatim>\<open>null\<close>; an object is truthy.\<close>

definition js_at :: "'a list \<Rightarrow> int \<Rightarrow> 'a option" where
  "js_at xs i = (if 0 \<le> i \<and> i < int (length xs) then Some (xs ! nat i) else None)"

text \<open>\<^verbatim>\<open>Array.prototype.findIndex\<close>: the first index whose element satisfies the
  predicate, or \<open>-1\<close>.\<close>

fun findIndex :: "('a \<Rightarrow> bool) \<Rightarrow> 'a list \<Rightarrow> int" where
  "findIndex P [] = - 1"
| "findIndex P (x # xs) =
     (if P x then 0 else (let r = findIndex P xs in if r = - 1 then - 1 else r + 1))"

section \<open>App.tsx: handing the captured timing to the player\<close>

datatype AppState = FORM | TIMING | PREVIEW

record AppHandoff =
  setTimedLyrics :: "TimedLyric list"
  setAudioDuration :: real
  setAppState :: AppState

text \<open>
  \<^verbatim>\<open>handleTimingComplete(lyrics, duration)\<close>, App.tsx lines 99-120. The arguments of the three state
  setter calls are the three fields of the result.
\<close>

definition handleTimingComplete :: "TimedLyric list \<Rightarrow> real \<Rightarrow> AppHandoff" where
  "handleTimingComplete lyrics duration =
     (if length lyrics = 0
      then \<lparr>setTimedLyrics = [], setAudioDuration = duration, setAppState = PREVIEW\<rparr>
      else
        (let firstLyricStartTime = startTime (lyrics ! 0);
             processedLyrics0 = [];
             processedLyrics1 =
               (if firstLyricStartTime > 0.1
                then processedLyrics0 @
                       [\<lparr>startTime = 0, endTime = firstLyricStartTime, text = ''''\<rparr>]
                else processedLyrics0);
             processedLyrics2 = processedLyrics1 @ lyrics
         in \<lparr>setTimedLyrics = processedLyrics2, setAudioDuration = duration, setAppState = PREVIEW\<rparr>))"

section \<open>VideoPlayer.tsx: lyric-window selection\<close>

record LyricLines =
  prev :: "TimedLyric option"
  current :: "TimedLyric option"
  "next" :: "TimedLyric option"

text \<open>The filter both copies of the selection start with:
  \<^verbatim>\<open>timedLyrics.filter(l => l.text.trim() !== '')\<close>.\<close>

definition realLyrics :: "TimedLyric list \<Rightarrow> TimedLyric list" where
  "realLyrics timedLyrics = filter (\<lambda>l. trim (text l) \<noteq> '''') timedLyrics"

text \<open>
  The backward scan of the playback copy, lines 153-159:
  \<^verbatim>\<open>for (let i = realLyrics.length - 1; i >= 0; i--)
     if (currentTime >= realLyrics[i].endTime) { prevLyricIndex = i; break; }\<close>
  started at \<open>i\<close>; the result is the value of \<^verbatim>\<open>prevLyricIndex\<close> after the loop.
\<close>

function prevLyricIndexLoop :: "TimedLyric list \<Rightarrow> real \<Rightarrow> int \<Rightarrow> int" where
  "prevLyricIndexLoop rl currentTime i =
     (if i \<ge> 0
      then (if currentTime \<ge> endTime (rl ! nat i) then i
            else prevLyricIndexLoop rl currentTime (i - 1))
      else - 1)"
  by pat_completeness auto
termination
  by (relation "measure (\<lambda>(rl, t, i). nat (i + 1))") auto

declare prevLyricIndexLoop.simps [simp del]

text \<open>The \<^verbatim>\<open>lyricLines\<close> memo of the player, lines 128-169, as a function of its two
  dependencies.\<close>

definition lyricLines :: "TimedLyric list \<Rightarrow> real \<Rightarrow> LyricLines" where
  "lyricLines timedLyrics currentTime =
     (let rl = realLyrics timedLyrics in
      if length rl = 0 then \<lparr>prev = None, current = None, next = None\<rparr>
      else
        let currentIndex =
              findIndex (\<lambda>lyric. currentTime \<ge> startTime lyric \<and> currentTime < endTime lyric) rl
        in
        if currentTime < startTime (rl ! 0)
        then \<lparr>prev = None, current = None, next = Some (rl ! 0)\<rparr>
        else
          let lastLyric = rl ! (length rl - 1) in
          if currentTime \<ge> endTime lastLyric
          then \<lparr>prev = Some lastLyric, current = None, next = None\<rparr>
          else if currentIndex \<noteq> - 1
          then \<lparr>prev = js_at rl (currentIndex - 1),
                current = Some (rl ! nat currentIndex),
                next = js_at rl (currentIndex + 1)\<rparr>
          else
            let prevLyricIndex = prevLyricIndexLoop rl currentTime (int (length rl) - 1) in
            if prevLyricIndex \<noteq> - 1
            then \<lparr>prev = Some (rl ! nat prevLyricIndex),
                  current = None,
                  next = js_at rl (prevLyricIndex + 1)\<rparr>
            else \<lparr>prev = None, current = None, next = None\<rparr>)"

text \<open>The copy inside the export loop, lines 276-288, with its own backward scan
  (line 285), as a function of \<^verbatim>\<open>timedLyrics\<close> and \<^verbatim>\<open>frameTime\<close>.\<close>

function exportPrevLyricIndexLoop :: "TimedLyric list \<Rightarrow> real \<Rightarrow> int \<Rightarrow> int" where
  "exportPrevLyricIndexLoop rl frameTime i =
     (if i \<ge> 0
      then (if frameTime \<ge> endTime (rl ! nat i) then i
            else exportPrevLyricIndexLoop rl frameTime (i - 1))
      else - 1)"
  by pat_completeness auto
termination
  by (relation "measure (\<lambda>(rl, t, i). nat (i + 1))") auto

declare exportPrevLyricIndexLoop.simps [simp del]

definition currentLyricLines :: "TimedLyric list \<Rightarrow> real \<Rightarrow> LyricLines" where
  "currentLyricLines timedLyrics frameTime =
     (let rl = filter (\<lambda>l. trim (text l) \<noteq> '''') timedLyrics in
      if length rl = 0 then \<lparr>prev = None, current = None, next = None\<rparr>
      else
        let currentIndex =
              findIndex (\<lambda>lyric. frameTime \<ge> startTime lyric \<and> frameTime < endTime lyric) rl
        in
        if frameTime < startTime (rl ! 0)
        then \<lparr>prev = None, current = None, next = Some (rl ! 0)\<rparr>
        else
          let lastLyric = rl ! (length rl - 1) in
          if frameTime \<ge> endTime lastLyric
          then \<lparr>prev = Some lastLyric, current = None, next = None\<rparr>
          else if currentIndex \<noteq> - 1
          then \<lparr>prev = js_at rl (currentIndex - 1),
                current = Some (rl ! nat currentIndex),
                next = js_at rl (currentIndex + 1)\<rparr>
          else
            let prevLyricIndex = exportPrevLyricIndexLoop rl frameTime (int (length rl) - 1) in
            if prevLyricIndex \<noteq> - 1
            then \<lparr>prev = Some (rl ! nat prevLyricIndex),
                  current = None,
                  next = js_at rl (prevLyricIndex + 1)\<rparr>
            else \<lparr>prev = None, current = None, next = None\<rparr>)"

text \<open>
  The input the selection is specified for: every line has \<open>startTime \<le> endTime\<close>, and
  each line ends no later than the next one starts. Such a sequence is sorted by start
  time and its half-open windows do not overlap.
\<close>

fun wellTimed :: "TimedLyric list \<Rightarrow> bool" where
  "wellTimed [] = True"
| "wellTimed [l] = (startTime l \<le> endTime l)"
| "wellTimed (l # m # ls) =
     (startTime l \<le> endTime l \<and> endTime l \<le> startTime m \<and> wellTimed (m # ls))"

section \<open>VideoPlayer.tsx: karaoke reveal fraction of the export\<close>





section \<open>VideoPlayer.tsx: background selection\<close>




section \<open>VideoPlayer.tsx: the export job\<close>

text \<open>\<^verbatim>\<open>String(i)\<close> for a non-negative integer: its decimal digits.\<close>

definition digitChar :: "nat \<Rightarrow> char" where
  "digitChar d = char_of (48 + d)"

fun js_String :: "nat \<Rightarrow> string" where
  "js_String n =
     (if n < 10 then [digitChar n] else js_String (n div 10) @ [digitChar (n mod 10)])"

declare js_String.simps [simp del]

text \<open>\<^verbatim>\<open>s.padStart(n, c)\<close> with a one-character filler: never truncates.\<close>

definition padStart :: "nat \<Rightarrow> char \<Rightarrow> string \<Rightarrow> string" where
  "padStart n c s = replicate (n - length s) c @ s"

text \<open>The file name of frame \<open>i\<close>, lines 339-340 and 357:
  \<^verbatim>\<open>`frame-${String(i).padStart(5, '0')}.jpg`\<close>.\<close>

definition frameFile :: "nat \<Rightarrow> string" where
  "frameFile i = ''frame-'' @ padStart 5 (CHR ''0'') (js_String i) @ ''.jpg''"

text \<open>
  What the collaborators of one export run do; each field is one place where
  \<^verbatim>\<open>handleExport\<close> can throw or reject, in source order:
  \<^item> \<open>loadOk\<close>: the encoder is loaded already, or \<^verbatim>\<open>ffmpeg.load()\<close> resolves (205-207);
  \<^item> \<open>audioOk\<close>: \<^verbatim>\<open>fetchFile(audioUrl)\<close> resolves (210);
  \<^item> \<open>ctxOk\<close>: \<^verbatim>\<open>canvas.getContext('2d')\<close> is not null (215-216);
  \<^item> \<open>preloadOk\<close>: every image of \<^verbatim>\<open>allImageUrls\<close> loads (222-235);
  \<^item> \<open>frameOk i\<close>: frame \<open>i\<close> is drawn, encoded and fetched (245-340);
  \<^item> \<open>runOk\<close>: \<^verbatim>\<open>ffmpeg.run(...)\<close> resolves (344);
  \<^item> \<open>outputWritten\<close>: the run has written \<^verbatim>\<open>output.mp4\<close>, so that reading it does not
    throw (347).
\<close>

record ExportEnv =
  loadOk :: bool
  audioOk :: bool
  ctxOk :: bool
  preloadOk :: bool
  frameOk :: "nat \<Rightarrow> bool"
  runOk :: bool
  outputWritten :: bool

datatype ExportResult = Downloaded | ExportFailed

text \<open>
  The observable effect of a run: how it ended (\<open>ExportFailed\<close> is the \<^verbatim>\<open>catch\<close> branch
  with its alert), the names registered in the encoder's working storage afterwards
  (\<^verbatim>\<open>ffmpeg.FS\<close>, shared by all runs), and the frames captured, in the order they were
  written, each with its index and its sample time.
\<close>

record ExportRun =
  result :: ExportResult
  storage :: "string set"
  captured :: "(nat \<times> real) list"

text \<open>
  The capture loop, lines 238-341: \<^verbatim>\<open>for (let i = 0; i < totalFrames; i++)\<close> with
  \<^verbatim>\<open>frameTime = i / frameRate\<close>, started at \<open>i\<close>. The first component of the result is
  false when a frame threw. The frame rate is the constant 30 of line 218 in the only
  call, so the division is a division of reals.
\<close>

function captureLoop ::
  "ExportEnv \<Rightarrow> nat \<Rightarrow> int \<Rightarrow> nat \<Rightarrow> string set \<Rightarrow> (nat \<times> real) list
     \<Rightarrow> bool \<times> string set \<times> (nat \<times> real) list" where
  "captureLoop env frameRate totalFrames i fs frames =
     (if int i < totalFrames
      then (let frameTime = real i / real frameRate in
            if frameOk env i
            then captureLoop env frameRate totalFrames (i + 1)
                   (insert (frameFile i) fs) (frames @ [(i, frameTime)])
            else (False, fs, frames))
      else (True, fs, frames))"
  by pat_completeness auto
termination
  by (relation "measure (\<lambda>(env, fr, total, i, fs, frames). nat (total - int i))") auto

declare captureLoop.simps [simp del]

text \<open>The first cleanup loop, lines 356-358, started at \<open>i\<close>.\<close>

function unlinkFrames :: "int \<Rightarrow> nat \<Rightarrow> string set \<Rightarrow> string set" where
  "unlinkFrames totalFrames i fs =
     (if int i < totalFrames then unlinkFrames totalFrames (i + 1) (fs - {frameFile i}) else fs)"
  by pat_completeness auto
termination
  by (relation "measure (\<lambda>(total, i, fs). nat (total - int i))") auto

declare unlinkFrames.simps [simp del]

text \<open>
  \<^verbatim>\<open>handleExport\<close>, lines 200-369, as a function of the collaborators' behaviour, the
  duration and the working storage it starts with. Every \<open>ExportFailed\<close> is a jump to
  the \<^verbatim>\<open>catch\<close> block; the \<^verbatim>\<open>finally\<close> block only resets the progress display.
\<close>

definition handleExport :: "ExportEnv \<Rightarrow> real \<Rightarrow> string set \<Rightarrow> ExportRun" where
  "handleExport env duration fs0 =
     (if \<not> loadOk env then \<lparr>result = ExportFailed, storage = fs0, captured = []\<rparr>
      else if \<not> audioOk env then \<lparr>result = ExportFailed, storage = fs0, captured = []\<rparr>
      else
        let fs1 = insert ''input.mp3'' fs0 in
        if \<not> ctxOk env then \<lparr>result = ExportFailed, storage = fs1, captured = []\<rparr>
        else
          let frameRate = 30;
              totalFrames = \<lfloor>duration * real frameRate\<rfloor>
          in
          if \<not> preloadOk env then \<lparr>result = ExportFailed, storage = fs1, captured = []\<rparr>
          else
            (case captureLoop env frameRate totalFrames 0 fs1 [] of
               (False, fs2, frames) \<Rightarrow>
                 \<lparr>result = ExportFailed, storage = fs2, captured = frames\<rparr>
             | (True, fs2, frames) \<Rightarrow>
                 if \<not> runOk env
                 then \<lparr>result = ExportFailed, storage = fs2, captured = frames\<rparr>
                 else if \<not> outputWritten env
                 then \<lparr>result = ExportFailed, storage = fs2, captured = frames\<rparr>
                 else
                   let fs3 = insert ''output.mp4'' fs2;
                       fs4 = unlinkFrames totalFrames 0 fs3;
                       fs5 = fs4 - {''input.mp3''};
                       fs6 = fs5 - {''output.mp4''}
                   in \<lparr>result = Downloaded, storage = fs6, captured = frames\<rparr>))"

section \<open>App.tsx: SRT import\<close>












text \<open>
  \<^verbatim>\<open>parseInt\<close> and \<^verbatim>\<open>parseFloat\<close> on the pieces of a matched time code, which are
  \<open>dd\<close>, \<open>dd\<close> and \<open>dd.ddd\<close>: the value of the leading digits, and that value plus the
  digits after the point as a decimal fraction. (A string without a leading digit
  parses to NaN in JavaScript; no piece of a match is such a string.)
\<close>

definition digitsValue :: "string \<Rightarrow> nat" where
  "digitsValue ds = foldl (\<lambda>v c. 10 * v + (of_char c - 48)) 0 ds"










section \<open>geminiService: stanzas and image prompts\<close>








section \<open>Auxiliary facts about the list operations\<close>




lemma findIndex_found:
  "findIndex P xs \<noteq> - 1 \<Longrightarrow>
     0 \<le> findIndex P xs \<and> findIndex P xs < int (length xs) \<and> P (xs ! nat (findIndex P xs))"
proof (induction xs)
  case Nil
  then show ?case by simp
next
  case (Cons x xs)
  show ?case
  proof (cases "P x")
    case True
    then show ?thesis by simp
  next
    case False
    with Cons.prems have ne: "findIndex P xs \<noteq> - 1" by (auto simp: Let_def)
    from Cons.IH [OF ne] False ne show ?thesis
      by (auto simp: Let_def nat_add_distrib)
  qed
qed

lemma wellTimed_tl: "wellTimed (x # xs) \<Longrightarrow> wellTimed xs"
  by (cases xs) auto

lemma wellTimed_nth: "wellTimed xs \<Longrightarrow> i < length xs \<Longrightarrow> startTime (xs ! i) \<le> endTime (xs ! i)"
proof (induction xs arbitrary: i rule: wellTimed.induct)
  case 1
  then show ?case by simp
next
  case (2 l)
  then show ?case by simp
next
  case (3 l m ls)
  then show ?case by (cases i) auto
qed

lemma wellTimed_step:
  "wellTimed xs \<Longrightarrow> Suc i < length xs \<Longrightarrow> endTime (xs ! i) \<le> startTime (xs ! Suc i)"
proof (induction xs arbitrary: i rule: wellTimed.induct)
  case 1
  then show ?case by simp
next
  case (2 l)
  then show ?case by simp
next
  case (3 l m ls)
  then show ?case by (cases i) auto
qed

lemma wellTimed_start_mono:
  "wellTimed xs \<Longrightarrow> i \<le> j \<Longrightarrow> j < length xs \<Longrightarrow> startTime (xs ! i) \<le> startTime (xs ! j)"
proof (induction j)
  case 0
  then show ?case by simp
next
  case (Suc j)
  show ?case
  proof (cases "i = Suc j")
    case True
    then show ?thesis by simp
  next
    case False
    with Suc.prems have "i \<le> j" by simp
    with Suc have a: "startTime (xs ! i) \<le> startTime (xs ! j)" by simp
    from Suc.prems have b: "startTime (xs ! j) \<le> endTime (xs ! j)"
      by (intro wellTimed_nth) auto
    from Suc.prems have c: "endTime (xs ! j) \<le> startTime (xs ! Suc j)"
      by (intro wellTimed_step) auto
    from a b c show ?thesis by linarith
  qed
qed

lemma wellTimed_chain:
  assumes "wellTimed xs" "i < j" "j < length xs"
  shows "endTime (xs ! i) \<le> startTime (xs ! j)"
proof -
  from assms have a: "endTime (xs ! i) \<le> startTime (xs ! Suc i)"
    by (intro wellTimed_step) auto
  from assms have "startTime (xs ! Suc i) \<le> startTime (xs ! j)"
    by (intro wellTimed_start_mono) auto
  with a show ?thesis by linarith
qed


lemma prevLyricIndexLoop_none:
  "(\<forall>j. 0 \<le> j \<and> j \<le> i \<longrightarrow> t < endTime (rl ! nat j)) \<Longrightarrow> prevLyricIndexLoop rl t i = - 1"
proof (induction rl t i rule: prevLyricIndexLoop.induct)
  case (1 rl t i)
  show ?case
  proof (cases "0 \<le> i")
    case True
    with "1.prems" have nb: "\<not> endTime (rl ! nat i) \<le> t" by force
    have "prevLyricIndexLoop rl t (i - 1) = - 1"
      using True nb "1.prems" by (intro "1.IH") auto
    with True nb show ?thesis by (simp add: prevLyricIndexLoop.simps [of rl t i])
  next
    case False
    then show ?thesis by (simp add: prevLyricIndexLoop.simps [of rl t i])
  qed
qed

section \<open>Auxiliary facts about the window selection\<close>


lemma lyricLines_before_first:
  assumes "realLyrics ls \<noteq> []" "t < startTime (realLyrics ls ! 0)"
  shows "lyricLines ls t = \<lparr>prev = None, current = None, next = Some (realLyrics ls ! 0)\<rparr>"
  using assms by (simp add: lyricLines_def Let_def)





lemma js_at_in_set: "js_at xs i = Some x \<Longrightarrow> x \<in> set xs"
  by (auto simp: js_at_def split: if_splits)

lemma prevLyricIndexLoop_range:
  "i < int (length rl) \<Longrightarrow>
     prevLyricIndexLoop rl t i = - 1 \<or>
     (0 \<le> prevLyricIndexLoop rl t i \<and> prevLyricIndexLoop rl t i < int (length rl))"
proof (induction rl t i rule: prevLyricIndexLoop.induct)
  case (1 rl t i)
  show ?case
  proof (cases "0 \<le> i")
    case False
    then show ?thesis by (simp add: prevLyricIndexLoop.simps [of rl t i])
  next
    case True
    show ?thesis
    proof (cases "endTime (rl ! nat i) \<le> t")
      case True
      with \<open>0 \<le> i\<close> "1.prems" show ?thesis
        by (simp add: prevLyricIndexLoop.simps [of rl t i])
    next
      case False
      with \<open>0 \<le> i\<close> "1.prems" "1.IH" show ?thesis
        by (simp add: prevLyricIndexLoop.simps [of rl t i])
    qed
  qed
qed

lemma exportPrevLyricIndexLoop_eq:
  "exportPrevLyricIndexLoop rl t i = prevLyricIndexLoop rl t i"
proof (induction rl t i rule: prevLyricIndexLoop.induct)
  case (1 rl t i)
  then show ?case
    by (cases "0 \<le> i")
      (auto simp: prevLyricIndexLoop.simps [of rl t i] exportPrevLyricIndexLoop.simps [of rl t i])
qed

lemma lyricLines_cases:
  obtains
    (empty) "realLyrics ls = []"
      "lyricLines ls t = \<lparr>prev = None, current = None, next = None\<rparr>"
  | (before) "realLyrics ls \<noteq> []" "t < startTime (realLyrics ls ! 0)"
      "lyricLines ls t = \<lparr>prev = None, current = None, next = Some (realLyrics ls ! 0)\<rparr>"
  | (after) "realLyrics ls \<noteq> []"
      "lyricLines ls t =
         \<lparr>prev = Some (realLyrics ls ! (length (realLyrics ls) - 1)), current = None, next = None\<rparr>"
  | (inline) k where "k < length (realLyrics ls)"
      "startTime (realLyrics ls ! k) \<le> t" "t < endTime (realLyrics ls ! k)"
      "lyricLines ls t =
         \<lparr>prev = js_at (realLyrics ls) (int k - 1), current = Some (realLyrics ls ! k),
          next = js_at (realLyrics ls) (int k + 1)\<rparr>"
  | (gap) k where "k < length (realLyrics ls)"
      "lyricLines ls t =
         \<lparr>prev = Some (realLyrics ls ! k), current = None,
          next = js_at (realLyrics ls) (int k + 1)\<rparr>"
  | (nothing) "realLyrics ls \<noteq> []"
      "lyricLines ls t = \<lparr>prev = None, current = None, next = None\<rparr>"
proof -
  let ?rl = "realLyrics ls"
  let ?P = "\<lambda>lyric. t \<ge> startTime lyric \<and> t < endTime lyric"
  let ?c = "findIndex ?P ?rl"
  let ?k = "prevLyricIndexLoop ?rl t (int (length ?rl) - 1)"
  show thesis
  proof (cases "?rl = []")
    case True
    then have "lyricLines ls t = \<lparr>prev = None, current = None, next = None\<rparr>"
      by (simp add: lyricLines_def)
    with True show thesis by (rule empty)
  next
    case ne: False
    show thesis
    proof (cases "t < startTime (?rl ! 0)")
      case True
      with ne have "lyricLines ls t = \<lparr>prev = None, current = None, next = Some (?rl ! 0)\<rparr>"
        by (simp add: lyricLines_def Let_def)
      with ne True show thesis by (rule before)
    next
      case nb: False
      show thesis
      proof (cases "endTime (?rl ! (length ?rl - 1)) \<le> t")
        case True
        with ne nb have "lyricLines ls t =
            \<lparr>prev = Some (?rl ! (length ?rl - 1)), current = None, next = None\<rparr>"
          by (simp add: lyricLines_def Let_def)
        with ne show thesis by (rule after)
      next
        case na: False
        show thesis
        proof (cases "?c = - 1")
          case found: False
          from findIndex_found [OF found]
          have r: "nat ?c < length ?rl" and w: "startTime (?rl ! nat ?c) \<le> t"
            "t < endTime (?rl ! nat ?c)" and i: "int (nat ?c) = ?c"
            by (simp_all add: nat_less_iff)
          from ne nb na found have "lyricLines ls t =
              \<lparr>prev = js_at ?rl (?c - 1), current = Some (?rl ! nat ?c),
               next = js_at ?rl (?c + 1)\<rparr>"
            by (simp add: lyricLines_def Let_def)
          then have "lyricLines ls t =
              \<lparr>prev = js_at ?rl (int (nat ?c) - 1), current = Some (?rl ! nat ?c),
               next = js_at ?rl (int (nat ?c) + 1)\<rparr>"
            by (simp only: i)
          with r w show thesis by (rule inline)
        next
          case nf: True
          show thesis
          proof (cases "?k = - 1")
            case True
            with ne nb na nf
            have "lyricLines ls t = \<lparr>prev = None, current = None, next = None\<rparr>"
              by (simp add: lyricLines_def Let_def)
            with ne show thesis by (rule nothing)
          next
            case fk: False
            have "?k = - 1 \<or> (0 \<le> ?k \<and> ?k < int (length ?rl))"
              by (rule prevLyricIndexLoop_range) simp
            with fk have r: "nat ?k < length ?rl" and i: "int (nat ?k) = ?k"
              by (simp_all add: nat_less_iff)
            from ne nb na nf fk have "lyricLines ls t =
                \<lparr>prev = Some (?rl ! nat ?k), current = None, next = js_at ?rl (?k + 1)\<rparr>"
              by (simp add: lyricLines_def Let_def)
            then have "lyricLines ls t =
                \<lparr>prev = Some (?rl ! nat ?k), current = None,
                 next = js_at ?rl (int (nat ?k) + 1)\<rparr>"
              by (simp only: i)
            with r show thesis by (rule gap)
          qed
        qed
      qed
    qed
  qed
qed

lemma lyricLines_from_real:
  assumes "prev (lyricLines ls t) = Some l \<or> current (lyricLines ls t) = Some l
           \<or> next (lyricLines ls t) = Some l"
  shows "l \<in> set (realLyrics ls)"
proof (cases ls t rule: lyricLines_cases)
  case empty
  with assms show ?thesis by simp
next
  case before
  with assms show ?thesis by auto
next
  case after
  with assms show ?thesis by auto
next
  case (inline k)
  with assms show ?thesis by (auto dest: js_at_in_set)
next
  case (gap k)
  with assms show ?thesis by (auto dest: js_at_in_set)
next
  case nothing
  with assms show ?thesis by simp
qed

lemma lyricLines_current_window:
  assumes "current (lyricLines ls t) = Some l"
  shows "l \<in> set (realLyrics ls) \<and> startTime l \<le> t \<and> t < endTime l"
proof (cases ls t rule: lyricLines_cases)
  case (inline k)
  with assms show ?thesis by auto
qed (use assms in simp_all)

lemma currentLyricLines_eq: "currentLyricLines ls t = lyricLines ls t"
  by (simp add: currentLyricLines_def lyricLines_def realLyrics_def exportPrevLyricIndexLoop_eq Let_def)

lemma realLyrics_idem: "realLyrics (realLyrics ls) = realLyrics ls"
  by (simp add: realLyrics_def)

lemma lyricLines_realLyrics: "lyricLines (realLyrics ls) t = lyricLines ls t"
  by (simp add: lyricLines_def realLyrics_idem)


text \<open>
  \<open>wellTimed\<close> and the wording "sorted by start time with non-overlapping half-open
  windows": a well-timed sequence is sorted by start time and its windows are pairwise
  disjoint, and for lines of positive length the converse holds too. (A line of length
  zero has an empty window, which overlaps nothing wherever it lies; \<open>wellTimed\<close> asks
  that it lie between its neighbours.)
\<close>

lemma wellTimed_iff_nth:
  "wellTimed ls =
     ((\<forall>i<length ls. startTime (ls ! i) \<le> endTime (ls ! i)) \<and>
      (\<forall>i. Suc i < length ls \<longrightarrow> endTime (ls ! i) \<le> startTime (ls ! Suc i)))"
proof (induction ls rule: wellTimed.induct)
  case 1
  show ?case by simp
next
  case (2 l)
  show ?case by simp
next
  case (3 l m ls)
  have a: "(\<forall>i<length (l # m # ls). P i) = (P 0 \<and> (\<forall>i<length (m # ls). P (Suc i)))" for P
    by (auto simp: less_Suc_eq_0_disj)
  have b: "(\<forall>i. Suc i < length (l # m # ls) \<longrightarrow> Q i) =
             (Q 0 \<and> (\<forall>i. Suc i < length (m # ls) \<longrightarrow> Q (Suc i)))" for Q
    by (auto simp: less_Suc_eq_0_disj)
  show ?case
    unfolding a b using "3.IH" by auto
qed

lemma wellTimed_sorted_disjoint:
  assumes "wellTimed ls"
  shows "sorted (map startTime ls)"
    and "\<forall>i j. i < j \<and> j < length ls \<longrightarrow>
           {startTime (ls ! i)..<endTime (ls ! i)} \<inter> {startTime (ls ! j)..<endTime (ls ! j)} = {}"
proof -
  show "sorted (map startTime ls)"
    using assms by (auto simp: sorted_iff_nth_mono intro: wellTimed_start_mono)
  show "\<forall>i j. i < j \<and> j < length ls \<longrightarrow>
           {startTime (ls ! i)..<endTime (ls ! i)} \<inter> {startTime (ls ! j)..<endTime (ls ! j)} = {}"
  proof (intro allI impI)
    fix i j assume "i < j \<and> j < length ls"
    with assms have "endTime (ls ! i) \<le> startTime (ls ! j)"
      by (intro wellTimed_chain) auto
    then show "{startTime (ls ! i)..<endTime (ls ! i)} \<inter> {startTime (ls ! j)..<endTime (ls ! j)} = {}"
      by auto
  qed
qed

lemma sorted_disjoint_wellTimed:
  assumes srt: "sorted (map startTime ls)"
    and pos: "\<forall>i<length ls. startTime (ls ! i) < endTime (ls ! i)"
    and dis: "\<forall>i j. i < j \<and> j < length ls \<longrightarrow>
           {startTime (ls ! i)..<endTime (ls ! i)} \<inter> {startTime (ls ! j)..<endTime (ls ! j)} = {}"
  shows "wellTimed ls"
  unfolding wellTimed_iff_nth
proof (intro conjI allI impI)
  fix i assume "i < length ls"
  with pos show "startTime (ls ! i) \<le> endTime (ls ! i)" by (simp add: less_imp_le)
next
  fix i assume i: "Suc i < length ls"
  show "endTime (ls ! i) \<le> startTime (ls ! Suc i)"
  proof (rule ccontr)
    assume "\<not> endTime (ls ! i) \<le> startTime (ls ! Suc i)"
    then have lt: "startTime (ls ! Suc i) < endTime (ls ! i)" by simp
    from srt i have "startTime (ls ! i) \<le> startTime (ls ! Suc i)"
      by (simp add: sorted_iff_nth_mono)
    with lt have 1: "startTime (ls ! Suc i) \<in> {startTime (ls ! i)..<endTime (ls ! i)}" by simp
    from pos i have 2: "startTime (ls ! Suc i) \<in> {startTime (ls ! Suc i)..<endTime (ls ! Suc i)}"
      by simp
    from i have "i < Suc i \<and> Suc i < length ls" by simp
    with dis have "{startTime (ls ! i)..<endTime (ls ! i)} \<inter>
        {startTime (ls ! Suc i)..<endTime (ls ! Suc i)} = {}" by blast
    with 1 2 show False by blast
  qed
qed

section \<open>Lyric-window selection\<close>



text \<open>
  C2. Lines whose text is empty after trimming never appear as previous, current or next,
  in the playback selection and in the export's: every line returned is a line of the
  input with non-empty trimmed text, and the selection of a sequence is the selection of
  its real lines. The window of an empty line is a gap: at a time inside it no line is
  current (for a sequence that is sorted and does not overlap). For the silent intro
  \<open>[0, 5)\<close> followed by the line \<open>A\<close> on \<open>[5, 8)\<close>, the selection at 3 is no
  previous, no current, and \<open>A\<close> as next.
\<close>

theorem lyricLines_excludes_empty_lines:
  "(\<forall>l. prev (lyricLines ls t) = Some l \<or> current (lyricLines ls t) = Some l
          \<or> next (lyricLines ls t) = Some l \<longrightarrow>
        l \<in> set ls \<and> trim (text l) \<noteq> '''')
   \<and> (\<forall>l. prev (currentLyricLines ls t) = Some l \<or> current (currentLyricLines ls t) = Some l
          \<or> next (currentLyricLines ls t) = Some l \<longrightarrow>
        l \<in> set ls \<and> trim (text l) \<noteq> '''')
   \<and> lyricLines ls t = lyricLines (realLyrics ls) t
   \<and> currentLyricLines ls t = currentLyricLines (realLyrics ls) t
   \<and> (\<forall>g\<in>set ls. trim (text g) = '''' \<and> startTime g \<le> t \<and> t < endTime g \<and> wellTimed ls \<longrightarrow>
        current (lyricLines ls t) = None \<and> current (currentLyricLines ls t) = None)"
proof -
  have mem: "l \<in> set ls \<and> trim (text l) \<noteq> ''''" if "l \<in> set (realLyrics ls)" for l
    using that by (simp add: realLyrics_def)
  have a: "\<forall>l. prev (lyricLines ls t) = Some l \<or> current (lyricLines ls t) = Some l
          \<or> next (lyricLines ls t) = Some l \<longrightarrow>
        l \<in> set ls \<and> trim (text l) \<noteq> ''''"
    using lyricLines_from_real mem by blast
  have c: "lyricLines ls t = lyricLines (realLyrics ls) t"
    by (simp add: lyricLines_realLyrics)
  have g: "current (lyricLines ls t) = None"
    if "g \<in> set ls" "trim (text g) = ''''" "startTime g \<le> t" "t < endTime g" "wellTimed ls" for g
  proof (rule ccontr)
    assume "current (lyricLines ls t) \<noteq> None"
    then obtain l where l: "current (lyricLines ls t) = Some l" by auto
    from lyricLines_current_window [OF l] mem
    have lm: "l \<in> set ls" and lt: "trim (text l) \<noteq> ''''"
      and lw: "startTime l \<le> t" "t < endTime l" by auto
    from lm obtain i where i: "i < length ls" "ls ! i = l" by (auto simp: in_set_conv_nth)
    from that obtain j where j: "j < length ls" "ls ! j = g" by (auto simp: in_set_conv_nth)
    from i j lt that have "i \<noteq> j" by auto
    then consider "i < j" | "j < i" by linarith
    then show False
    proof cases
      case 1
      with that j have "endTime (ls ! i) \<le> startTime (ls ! j)"
        by (intro wellTimed_chain) auto
      with i j lw that show False by simp
    next
      case 2
      with that i have "endTime (ls ! j) \<le> startTime (ls ! i)"
        by (intro wellTimed_chain) auto
      with i j lw that show False by simp
    qed
  qed
  from a c g show ?thesis
    unfolding currentLyricLines_eq by blast
qed

theorem lyricLines_excludes_empty_lines_witness:
  "wellTimed [\<lparr>startTime = 0, endTime = 5, text = ''''\<rparr>,
              \<lparr>startTime = 5, endTime = 8, text = ''A''\<rparr>]
   \<and> trim (text \<lparr>startTime = 0, endTime = 5, text = ''''\<rparr>) = ''''
   \<and> lyricLines [\<lparr>startTime = 0, endTime = 5, text = ''''\<rparr>,
               \<lparr>startTime = 5, endTime = 8, text = ''A''\<rparr>] 3 =
     \<lparr>prev = None, current = None, next = Some \<lparr>startTime = 5, endTime = 8, text = ''A''\<rparr>\<rparr>
   \<and> currentLyricLines [\<lparr>startTime = 0, endTime = 5, text = ''''\<rparr>,
               \<lparr>startTime = 5, endTime = 8, text = ''A''\<rparr>] 3 =
     \<lparr>prev = None, current = None, next = Some \<lparr>startTime = 5, endTime = 8, text = ''A''\<rparr>\<rparr>"
proof -
  let ?g = "\<lparr>startTime = 0, endTime = 5, text = ''''\<rparr>"
  let ?a = "\<lparr>startTime = 5, endTime = 8, text = ''A''\<rparr>"
  have r: "realLyrics [?g, ?a] = [?a]"
    by (simp add: realLyrics_def trim_def isWhiteSpace_def)
  have ra: "realLyrics [?a] = [?a]"
    by (simp add: realLyrics_def trim_def isWhiteSpace_def)
  have one: "lyricLines [?a] 3 = \<lparr>prev = None, current = None, next = Some ?a\<rparr>"
    using lyricLines_before_first [of "[?a]" 3] by (simp add: ra)
  have two: "currentLyricLines [?a] 3 = \<lparr>prev = None, current = None, next = Some ?a\<rparr>"
    using one by (simp add: currentLyricLines_eq)
  have three: "wellTimed [?g, ?a]" "trim (text ?g) = ''''"
    by (simp_all add: trim_def)
  from lyricLines_excludes_empty_lines [of "[?g, ?a]" 3] one two three show ?thesis
    by (simp only: r)
qed

text \<open>
  C4. At every time and for every lyric sequence, the selection computed inside the
  export loop equals the selection of the player: same previous, current and next line.
\<close>

theorem selection_playback_export_agree:
  "currentLyricLines timedLyrics t = lyricLines timedLyrics t"
proof -
  have scan: "exportPrevLyricIndexLoop rl t i = prevLyricIndexLoop rl t i" for rl i
    by (rule exportPrevLyricIndexLoop_eq)
  show ?thesis
    unfolding currentLyricLines_def lyricLines_def realLyrics_def
    by (simp add: scan Let_def)
qed

section \<open>Karaoke reveal fraction\<close>




section \<open>Background selection\<close>




section \<open>The export job\<close>


lemma unlinkFrames_eq:
  "unlinkFrames totalFrames i fs = fs - frameFile ` {i..<nat totalFrames}"
proof (induction totalFrames i fs rule: unlinkFrames.induct)
  case (1 totalFrames i fs)
  show ?case
  proof (cases "int i < totalFrames")
    case False
    then show ?thesis by (simp add: unlinkFrames.simps [of totalFrames i])
  next
    case True
    then have "{i..<nat totalFrames} = insert i {Suc i..<nat totalFrames}" by auto
    with True "1.IH" show ?thesis
      by (auto simp: unlinkFrames.simps [of totalFrames i])
  qed
qed

lemma captureLoop_storage:
  "captureLoop env fr totalFrames i fs frames = (ok, fs', frames') \<Longrightarrow>
     fs \<subseteq> fs' \<and> fs' \<subseteq> fs \<union> frameFile ` {i..<nat totalFrames}"
proof (induction env fr totalFrames i fs frames rule: captureLoop.induct)
  case (1 env fr totalFrames i fs frames)
  show ?case
  proof (cases "int i < totalFrames \<and> frameOk env i")
    case False
    with "1.prems" show ?thesis
      by (auto simp: captureLoop.simps [of env fr totalFrames i] Let_def split: if_splits)
  next
    case True
    then have s: "{i..<nat totalFrames} = insert i {Suc i..<nat totalFrames}" by auto
    from True "1.prems" have
      "captureLoop env fr totalFrames (i + 1) (insert (frameFile i) fs)
         (frames @ [(i, real i / real fr)]) = (ok, fs', frames')"
      by (simp add: captureLoop.simps [of env fr totalFrames i] Let_def)
    with True have "insert (frameFile i) fs \<subseteq> fs' \<and>
        fs' \<subseteq> insert (frameFile i) fs \<union> frameFile ` {i + 1..<nat totalFrames}"
      by (intro "1.IH") auto
    then show ?thesis unfolding s by auto
  qed
qed

lemma handleExport_success_cleans:
  assumes "result (handleExport env duration fs0) = Downloaded"
  shows "storage (handleExport env duration fs0) =
           fs0 - (insert ''input.mp3'' (insert ''output.mp4''
                    (frameFile ` {0..<nat \<lfloor>duration * 30\<rfloor>})))"
proof -
  obtain ok fs2 frames where c:
    "captureLoop env 30 \<lfloor>duration * 30\<rfloor> 0 (insert ''input.mp3'' fs0) [] = (ok, fs2, frames)"
    by (cases "captureLoop env 30 \<lfloor>duration * 30\<rfloor> 0 (insert ''input.mp3'' fs0) []") auto
  from captureLoop_storage [OF c]
  have b: "insert ''input.mp3'' fs0 \<subseteq> fs2"
    "fs2 \<subseteq> insert ''input.mp3'' fs0 \<union> frameFile ` {0..<nat \<lfloor>duration * 30\<rfloor>}"
    by simp_all
  from assms c have "storage (handleExport env duration fs0) =
      (unlinkFrames \<lfloor>duration * 30\<rfloor> 0 (insert ''output.mp4'' fs2) - {''input.mp3''})
        - {''output.mp4''}"
    by (auto simp: handleExport_def Let_def split: if_splits bool.splits)
  with b show ?thesis
    by (auto simp: unlinkFrames_eq)
qed

lemma handleExport_failure_keeps_audio:
  assumes "result (handleExport env duration fs0) = ExportFailed" "loadOk env" "audioOk env"
  shows "''input.mp3'' \<in> storage (handleExport env duration fs0)"
proof -
  obtain ok fs2 frames where c:
    "captureLoop env 30 \<lfloor>duration * 30\<rfloor> 0 (insert ''input.mp3'' fs0) [] = (ok, fs2, frames)"
    by (cases "captureLoop env 30 \<lfloor>duration * 30\<rfloor> 0 (insert ''input.mp3'' fs0) []") auto
  from captureLoop_storage [OF c] have "''input.mp3'' \<in> fs2" by auto
  with assms c show ?thesis
    by (auto simp: handleExport_def Let_def split: if_splits bool.splits)
qed



text \<open>
  C7. After a run that fails the files the run has written are still registered: the
  unlinking (lines 355-360) is the tail of the \<^verbatim>\<open>try\<close> block, and neither \<^verbatim>\<open>catch\<close>
  nor \<^verbatim>\<open>finally\<close> unlinks anything. When an image fails to load, \<^verbatim>\<open>input.mp3\<close> stays;
  when frame 2 fails, \<^verbatim>\<open>input.mp3\<close> and the first two frames stay. Every run that
  fails after the audio was written leaves \<^verbatim>\<open>input.mp3\<close> behind
  (\<open>handleExport_failure_keeps_audio\<close>); only a run that ends in the download leaves none
  of its files (\<open>handleExport_success_cleans\<close>).
\<close>

theorem handleExport_leaves_files_on_failure:
  "handleExport \<lparr>loadOk = True, audioOk = True, ctxOk = True, preloadOk = False,
       frameOk = (\<lambda>i. True), runOk = True, outputWritten = True\<rparr> 2 {} =
     \<lparr>result = ExportFailed, storage = {''input.mp3''}, captured = []\<rparr>
   \<and> storage (handleExport \<lparr>loadOk = True, audioOk = True, ctxOk = True, preloadOk = True,
       frameOk = (\<lambda>i. i \<noteq> 2), runOk = True, outputWritten = True\<rparr> 2 {}) =
     {''input.mp3'', ''frame-00000.jpg'', ''frame-00001.jpg''}
   \<and> result (handleExport \<lparr>loadOk = True, audioOk = True, ctxOk = True, preloadOk = True,
       frameOk = (\<lambda>i. i \<noteq> 2), runOk = True, outputWritten = True\<rparr> 2 {}) = ExportFailed"
proof -
  have f0: "frameFile 0 = ''frame-00000.jpg''" by code_simp
  have f1: "frameFile (Suc 0) = ''frame-00001.jpg''" by code_simp
  let ?env = "\<lparr>loadOk = True, audioOk = True, ctxOk = True, preloadOk = True,
       frameOk = (\<lambda>i. i \<noteq> 2), runOk = True, outputWritten = True\<rparr>"
  have "captureLoop ?env 30 60 0 {''input.mp3''} [] =
          (False, {''input.mp3'', ''frame-00000.jpg'', ''frame-00001.jpg''}, [(0, 0), (1, 1 / 30)])"
    by (simp add: captureLoop.simps [of _ _ _ 0] captureLoop.simps [of _ _ _ "Suc 0"]
        captureLoop.simps [of _ _ _ "Suc (Suc 0)"] captureLoop.simps [of _ _ _ 2] 
        Let_def f0 f1 insert_commute)
  then show ?thesis
    by (simp add: handleExport_def Let_def)
qed

section \<open>The SRT parser\<close>







lemma digitsValue_2: "digitsValue [a, b] = 10 * (of_char a - 48) + (of_char b - 48)"
  by (simp add: digitsValue_def)

lemma digitsValue_3:
  "digitsValue [a, b, c] = 100 * (of_char a - 48) + 10 * (of_char b - 48) + (of_char c - 48)"
  by (simp add: digitsValue_def)








section \<open>Stanzas and image prompts\<close>






section \<open>Timing handoff\<close>

text \<open>
  C10. For a non-empty captured list, the sequence handed to the player is the captured
  list, in order and unmodified, behind at most one extra line; the extra line is there if
  and only if the first captured line starts later than 0.1 s; it has empty text and spans
  \<open>[0, firstLine.startTime)\<close>, so the handed-off sequence then covers time 0; without
  it the sequence is the captured list itself.
\<close>

theorem handleTimingComplete_prefix:
  assumes "lyrics \<noteq> []"
  shows "setTimedLyrics (handleTimingComplete lyrics d) =
           (if startTime (hd lyrics) > 0.1
            then [\<lparr>startTime = 0, endTime = startTime (hd lyrics), text = ''''\<rparr>]
            else []) @ lyrics
       \<and> (startTime (hd lyrics) > 0.1 \<longleftrightarrow>
            length (setTimedLyrics (handleTimingComplete lyrics d)) = length lyrics + 1)
       \<and> (startTime (hd lyrics) > 0.1 \<longrightarrow>
            text (hd (setTimedLyrics (handleTimingComplete lyrics d))) = ''''
          \<and> startTime (hd (setTimedLyrics (handleTimingComplete lyrics d))) \<le> 0
          \<and> 0 < endTime (hd (setTimedLyrics (handleTimingComplete lyrics d)))
          \<and> tl (setTimedLyrics (handleTimingComplete lyrics d)) = lyrics)
       \<and> (\<not> startTime (hd lyrics) > 0.1 \<longrightarrow>
            setTimedLyrics (handleTimingComplete lyrics d) = lyrics)"
  using assms by (cases lyrics) (simp_all add: handleTimingComplete_def Let_def)

theorem handleTimingComplete_prefix_witness:
  "[\<lparr>startTime = 5, endTime = 8, text = ''A''\<rparr>] \<noteq> []
   \<and> setTimedLyrics (handleTimingComplete [\<lparr>startTime = 5, endTime = 8, text = ''A''\<rparr>] 8) =
       [\<lparr>startTime = 0, endTime = 5, text = ''''\<rparr>, \<lparr>startTime = 5, endTime = 8, text = ''A''\<rparr>]
   \<and> setTimedLyrics (handleTimingComplete [\<lparr>startTime = 0.05, endTime = 8, text = ''A''\<rparr>] 8) =
       [\<lparr>startTime = 0.05, endTime = 8, text = ''A''\<rparr>]"
  using handleTimingComplete_prefix [of "[\<lparr>startTime = 5, endTime = 8, text = ''A''\<rparr>]" 8]
    handleTimingComplete_prefix [of "[\<lparr>startTime = 0.05, endTime = 8, text = ''A''\<rparr>]" 8]
  by simp

end
